theory Spec2Isabelle
  imports Complex_Main
begin

section \<open>Data model (types.ts)\<close>

text \<open>
  A JavaScript \<open>number\<close> is modelled as a real: NaN, the infinities and the rounding of
  double arithmetic are left out. A store into the \<open>Float32Array\<close> of positions rounds
  the value to single precision (\<open>fround\<close> below).
  A value that may be \<open>undefined\<close> or \<open>null\<close> at run time is an \<open>option\<close>
  (\<open>None\<close> is the falsy value); reading a property of it is an error value.
\<close>

datatype error = TypeError

record landmark =
  x :: real
  y :: real
  z :: real
  visibility :: "real option"

record pose_frame =
  timestamp :: real
  landmarks :: "landmark option list option"

text \<open>\<open>xs[i]\<close> on a JavaScript array: \<open>undefined\<close> past the end, never an exception.\<close>

definition at_index :: "'a list \<Rightarrow> nat \<Rightarrow> 'a option" where
  "at_index xs i = (if i < length xs then Some (xs ! i) else None)"

text \<open>\<open>ls[a]\<close> on an array of landmarks: \<open>undefined\<close> for a hole and past the end.\<close>

definition landmark_of :: "landmark option list \<Rightarrow> nat \<Rightarrow> landmark option" where
  "landmark_of ls a = (if a < length ls then ls ! a else None)"

text \<open>\<open>fr.timestamp\<close>, \<open>fr.landmarks\<close> and \<open>landmarks[a]\<close>: a TypeError when the object
  read from is \<open>undefined\<close>.\<close>

definition get_timestamp :: "pose_frame option \<Rightarrow> error + real" where
  "get_timestamp fr = (case fr of None \<Rightarrow> Inl TypeError | Some f \<Rightarrow> Inr (timestamp f))"

definition get_landmarks :: "pose_frame option \<Rightarrow> error + landmark option list option" where
  "get_landmarks fr = (case fr of None \<Rightarrow> Inl TypeError | Some f \<Rightarrow> Inr (landmarks f))"

definition landmark_at :: "landmark option list option \<Rightarrow> nat \<Rightarrow> error + landmark option" where
  "landmark_at lms a =
     (case lms of
        None \<Rightarrow> Inl TypeError
      | Some ls \<Rightarrow> Inr (landmark_of ls a))"

section \<open>The history store (App, \<open>pose.onResults\<close>)\<close>

text \<open>\<open>historyRef.current.push(newFrame)\<close>, then one \<open>shift()\<close> when the length exceeds 200.\<close>

definition push_frame :: "pose_frame list \<Rightarrow> pose_frame \<Rightarrow> pose_frame list" where
  "push_frame historyRef newFrame =
     (let pushed = historyRef @ [newFrame]
      in if length pushed > 200 then tl pushed else pushed)"

text \<open>The callback: \<open>now\<close> is the value of \<open>Date.now()\<close>, \<open>poseLandmarks\<close> is
  \<open>results.poseLandmarks\<close>; a result without landmarks leaves the history as it is.\<close>

definition onResults :: "real \<Rightarrow> landmark option list option \<Rightarrow> pose_frame list \<Rightarrow> pose_frame list" where
  "onResults now poseLandmarks historyRef =
     (if poseLandmarks \<noteq> None
      then push_frame historyRef \<lparr>timestamp = now, landmarks = poseLandmarks\<rparr>
      else historyRef)"

section \<open>The visualizer\<close>

definition POSE_CONNECTIONS :: "(nat \<times> nat) list" where
  "POSE_CONNECTIONS =
     [(11, 12), (11, 13), (13, 15), (12, 14), (14, 16),
      (11, 23), (12, 24), (23, 24),
      (23, 25), (25, 27), (24, 26), (26, 28),
      (27, 29), (29, 31), (27, 31),
      (28, 30), (30, 32), (28, 32),
      (15, 17), (17, 19), (19, 21), (15, 21),
      (16, 18), (18, 20), (20, 22), (16, 22),
      (9, 10)]"

definition FACE_CONNECTIONS :: "(nat \<times> nat) list" where
  "FACE_CONNECTIONS =
     [(0, 1), (1, 2), (2, 3), (3, 7),
      (0, 4), (4, 5), (5, 6), (6, 8)]"

definition ALL_CONNECTIONS :: "(nat \<times> nat) list" where
  "ALL_CONNECTIONS = POSE_CONNECTIONS @ FACE_CONNECTIONS"

definition TRAIL_COUNT :: nat where
  "TRAIL_COUNT = 15"

definition MAX_DELAY_MS :: real where
  "MAX_DELAY_MS = 2500"

subsection \<open>Construction of the layers\<close>

record material =
  color :: nat
  transparent :: bool
  opacity :: real

definition neonColors :: "nat list" where
  "neonColors = [0x00ffff, 0xbf00ff, 0xff00ff]"

text \<open>\<open>Math.pow(1.0 - (i / TRAIL_COUNT), 1.5)\<close>; the base is never negative for a layer
  index, where \<open>Math.pow\<close> and \<open>powr\<close> agree.\<close>

definition layer_opacity :: "nat \<Rightarrow> real" where
  "layer_opacity i = (1.0 - (real i / real TRAIL_COUNT)) powr 1.5"

definition layer_material :: "nat \<Rightarrow> material" where
  "layer_material i =
     \<lparr>color = neonColors ! (i mod length neonColors),
      transparent = True,
      opacity = layer_opacity i\<rparr>"

text \<open>\<open>new Float32Array(ALL_CONNECTIONS.length * 2 * 3)\<close>: zero-filled.\<close>

definition new_positions :: "real list" where
  "new_positions = replicate (length ALL_CONNECTIONS * 2 * 3) 0"

text \<open>What a render tick reads and writes of a \<open>THREE.LineSegments\<close>: the position
  array of its geometry, the attribute's \<open>needsUpdate\<close> flag and \<open>visible\<close>.\<close>

record mesh =
  positions :: "real list"
  needsUpdate :: bool
  visible :: bool

subsection \<open>The nearest-frame search (lines 103 to 114 of \<open>animate\<close>)\<close>

function scan_from ::
  "pose_frame list \<Rightarrow> real \<Rightarrow> nat \<Rightarrow> pose_frame option \<Rightarrow> real \<Rightarrow> error + (pose_frame option \<times> real)"
where
  "scan_from history targetTimestamp f bestFrame minDiff =
     (if f < length history then
        (case get_timestamp (at_index history f) of
           Inl e \<Rightarrow> Inl e
         | Inr t \<Rightarrow>
            (let diff = \<bar>t - targetTimestamp\<bar>
             in if diff < minDiff then
                  scan_from history targetTimestamp (f + 1) (at_index history f) diff
                else if diff > minDiff then
                  Inr (bestFrame, minDiff)
                else scan_from history targetTimestamp (f + 1) bestFrame minDiff))
      else Inr (bestFrame, minDiff))"
  by pat_completeness auto
termination
  by (relation "measure (\<lambda>(history, targetTimestamp, f, bestFrame, minDiff). length history - f)") auto

declare scan_from.simps [simp del]

definition findNearest :: "pose_frame list \<Rightarrow> real \<Rightarrow> error + (pose_frame option \<times> real)" where
  "findNearest history targetTimestamp =
     (case get_timestamp (at_index history 0) of
        Inl e \<Rightarrow> Inl e
      | Inr t \<Rightarrow> scan_from history targetTimestamp 1 (at_index history 0) \<bar>t - targetTimestamp\<bar>)"

subsection \<open>Writing the segments (lines 118 to 132)\<close>

text \<open>Rounding to the nearest integer, a tie to the even one.\<close>

definition round_even :: "real \<Rightarrow> int" where
  "round_even r =
     (let f = \<lfloor>r\<rfloor>; d = r - of_int f
      in if d < 1 / 2 then f else if 1 / 2 < d then f + 1 else if even f then f else f + 1)"

text \<open>The exponent \<open>e\<close> of a positive number: \<open>2 powi e \<le> v < 2 powi (e + 1)\<close>.\<close>

function binade :: "real \<Rightarrow> int" where
  "binade v =
     (if 2 \<le> v then binade (v / 2) + 1
      else if 0 < v \<and> v < 1 then binade (v * 2) - 1
      else 0)"
  by pat_completeness auto
termination
proof (relation "measure (\<lambda>v. if 1 \<le> v then nat \<lfloor>v\<rfloor> else 1 + nat \<lfloor>1 / v\<rfloor>)")
  show "wf (measure (\<lambda>v::real. if 1 \<le> v then nat \<lfloor>v\<rfloor> else 1 + nat \<lfloor>1 / v\<rfloor>))" by simp
next
  fix v :: real assume v: "2 \<le> v"
  have "\<lfloor>v / 2\<rfloor> < \<lfloor>v\<rfloor>"
  proof -
    have "v / 2 < of_int \<lfloor>v\<rfloor>"
    proof -
      have "v < of_int \<lfloor>v\<rfloor> + 1" by linarith
      moreover have "2 \<le> (of_int \<lfloor>v\<rfloor> :: real)" using v by (metis le_floor_iff of_int_numeral of_int_le_iff)
      ultimately show ?thesis by linarith
    qed
    then show ?thesis by (simp add: floor_less_iff)
  qed
  moreover have "0 \<le> \<lfloor>v / 2\<rfloor>" using v by simp
  ultimately show "(v / 2, v) \<in> measure (\<lambda>v. if 1 \<le> v then nat \<lfloor>v\<rfloor> else 1 + nat \<lfloor>1 / v\<rfloor>)"
    using v by simp
next
  fix v :: real assume "\<not> 2 \<le> v" and v: "0 < v \<and> v < 1"
  have one: "1 \<le> \<lfloor>1 / v\<rfloor>" using v by (simp add: le_floor_iff)
  show "(v * 2, v) \<in> measure (\<lambda>v. if 1 \<le> v then nat \<lfloor>v\<rfloor> else 1 + nat \<lfloor>1 / v\<rfloor>)"
  proof (cases "1 \<le> v * 2")
    case True
    have "\<lfloor>v * 2\<rfloor> = 1" using True v by (intro floor_unique) simp_all
    then show ?thesis using True v one by simp
  next
    case False
    have "1 / (v * 2) < of_int \<lfloor>1 / v\<rfloor>"
    proof -
      have "1 / v < of_int \<lfloor>1 / v\<rfloor> + 1" by linarith
      moreover have "1 \<le> (of_int \<lfloor>1 / v\<rfloor> :: real)" using one by simp
      moreover have "1 / (v * 2) = (1 / v) / 2" by simp
      ultimately show ?thesis by linarith
    qed
    then have "\<lfloor>1 / (v * 2)\<rfloor> < \<lfloor>1 / v\<rfloor>" by (simp add: floor_less_iff)
    then show ?thesis using False v one by simp
  qed
qed

declare binade.simps [simp del]

text \<open>
  The single-precision number nearest to \<open>v\<close>, ties to the even significand, as
  \<open>Math.fround\<close> and every store into a \<open>Float32Array\<close> compute it: 24 significant
  bits in the binade of \<open>v\<close>, the spacing of the subnormal numbers below
  \<open>2 powi (- 126)\<close>. The overflow to an infinity, from \<open>2 powi 128\<close> on, is left out.
\<close>

definition fround :: "real \<Rightarrow> real" where
  "fround v =
     (let e = max (binade \<bar>v\<bar>) (- 126); q = 2 powi (e - 23)
      in of_int (round_even (v / q)) * q)"

text \<open>A store into the \<open>Float32Array\<close>: the value is rounded to single precision; a
  store past the end of the array is dropped silently.\<close>

definition put :: "real list \<Rightarrow> nat \<Rightarrow> real \<Rightarrow> real list" where
  "put ps i v = (if i < length ps then ps[i := fround v] else ps)"

definition world_x :: "real \<Rightarrow> real" where
  "world_x v = (1.0 - v - 0.5) * 15"

definition world_y :: "real \<Rightarrow> real" where
  "world_y v = (0.5 - v) * 15"

definition world_z :: "real \<Rightarrow> real" where
  "world_z v = - v * 10"

text \<open>The three stores \<open>positions[pIdx++] = ...\<close> of one endpoint; reading \<open>p.x\<close> of an
  \<open>undefined\<close> endpoint is a TypeError.\<close>

definition write_point :: "landmark option \<Rightarrow> nat \<times> real list \<Rightarrow> error + (nat \<times> real list)" where
  "write_point p st =
     (case p of
        None \<Rightarrow> Inl TypeError
      | Some lm \<Rightarrow>
         (case st of (pIdx, ps) \<Rightarrow>
            Inr (pIdx + 3,
                 put (put (put ps pIdx (world_x (x lm))) (pIdx + 1) (world_y (y lm)))
                     (pIdx + 2) (world_z (z lm)))))"

fun write_connections ::
  "landmark option list option \<Rightarrow> (nat \<times> nat) list \<Rightarrow> nat \<times> real list \<Rightarrow> error + (nat \<times> real list)"
where
  "write_connections lms [] st = Inr st"
| "write_connections lms ((a, b) # rest) st =
     (case landmark_at lms a of
        Inl e \<Rightarrow> Inl e
      | Inr start \<Rightarrow>
         (case landmark_at lms b of
            Inl e \<Rightarrow> Inl e
          | Inr endp \<Rightarrow>
             if start \<noteq> None \<and> endp \<noteq> None then
               (case write_point start st of
                  Inl e \<Rightarrow> Inl e
                | Inr st1 \<Rightarrow>
                   (case write_point endp st1 of
                      Inl e \<Rightarrow> Inl e
                    | Inr st2 \<Rightarrow> write_connections lms rest st2))
             else write_connections lms rest st))"

subsection \<open>The render tick (\<open>animate\<close>)\<close>

text \<open>The body of the \<open>forEach\<close> callback from line 102 on; it reads neither \<open>now\<close>
  nor the index, only the target timestamp computed from them.\<close>

definition draw_nearest :: "pose_frame list \<Rightarrow> real \<Rightarrow> mesh \<Rightarrow> error + mesh" where
  "draw_nearest history targetTimestamp m =
     (case findNearest history targetTimestamp of
        Inl e \<Rightarrow> Inl e
      | Inr (bestFrame, minDiff) \<Rightarrow>
         if bestFrame \<noteq> None then
           (case get_landmarks bestFrame of
              Inl e \<Rightarrow> Inl e
            | Inr lms \<Rightarrow>
               if lms \<noteq> None \<and> minDiff < 1000 then
                 (case write_connections lms ALL_CONNECTIONS (0, positions m) of
                    Inl e \<Rightarrow> Inl e
                  | Inr (pIdx, ps) \<Rightarrow>
                     Inr (m\<lparr>positions := ps, needsUpdate := True, visible := True\<rparr>))
               else Inr (m\<lparr>visible := False\<rparr>))
         else Inr (m\<lparr>visible := False\<rparr>))"

text \<open>The callback for the mesh at index \<open>i\<close> (lines 99 and 100, then the body).\<close>

definition update_mesh :: "pose_frame list \<Rightarrow> real \<Rightarrow> mesh \<Rightarrow> nat \<Rightarrow> error + mesh" where
  "update_mesh history now m i =
     (let targetDelay = (real i / (real TRAIL_COUNT - 1)) * MAX_DELAY_MS;
          targetTimestamp = now - targetDelay
      in draw_nearest history targetTimestamp m)"

text \<open>\<open>skeletonMeshes.forEach((mesh, i) => ...)\<close>: in order, an exception ends the tick.\<close>

fun forEach :: "(mesh \<Rightarrow> nat \<Rightarrow> error + mesh) \<Rightarrow> mesh list \<Rightarrow> nat \<Rightarrow> error + mesh list" where
  "forEach callback [] i = Inr []"
| "forEach callback (m # rest) i =
     (case callback m i of
        Inl e \<Rightarrow> Inl e
      | Inr m' \<Rightarrow>
         (case forEach callback rest (Suc i) of
            Inl e \<Rightarrow> Inl e
          | Inr ms \<Rightarrow> Inr (m' # ms)))"

text \<open>One tick on the meshes, up to the call of \<open>composer.render()\<close>.\<close>

definition animate :: "pose_frame list \<Rightarrow> real \<Rightarrow> mesh list \<Rightarrow> error + mesh list" where
  "animate history now skeletonMeshes =
     (if length history > 0 then forEach (update_mesh history now) skeletonMeshes 0
      else Inr skeletonMeshes)"

section \<open>Reference definitions and example inputs\<close>

text \<open>A full frame of 33 landmarks at the centre of the image, and frames carrying it.\<close>

definition centre_landmark :: landmark where
  "centre_landmark = \<lparr>x = 0.5, y = 0.5, z = 0, visibility = None\<rparr>"

definition full_landmarks :: "landmark option list" where
  "full_landmarks = replicate 33 (Some centre_landmark)"

definition example_frame :: "real \<Rightarrow> pose_frame" where
  "example_frame t = \<lparr>timestamp = t, landmarks = Some full_landmarks\<rparr>"

definition example_history :: "pose_frame list" where
  "example_history = [example_frame 1000, example_frame 1030]"

text \<open>
  The full linear scan of the specification, for comparison with the early-terminating
  loop of \<open>animate\<close>: every frame is visited, the best one (of strictly smaller distance
  to the target) is kept, and an empty history gives no result.
\<close>

fun full_scan_from :: "real \<Rightarrow> pose_frame list \<Rightarrow> pose_frame \<times> real \<Rightarrow> pose_frame \<times> real" where
  "full_scan_from T [] best = best"
| "full_scan_from T (fr # rest) (bestFrame, minDiff) =
     (let diff = \<bar>timestamp fr - T\<bar>
      in if diff < minDiff then full_scan_from T rest (fr, diff)
         else full_scan_from T rest (bestFrame, minDiff))"

definition full_scan :: "pose_frame list \<Rightarrow> real \<Rightarrow> (pose_frame \<times> real) option" where
  "full_scan history T =
     (case history of
        [] \<Rightarrow> None
      | fr # rest \<Rightarrow> Some (full_scan_from T rest (fr, \<bar>timestamp fr - T\<bar>)))"

text \<open>The floats one drawn connection contributes: its two endpoints, transformed; none
  when an endpoint is missing from the frame.\<close>

definition point_floats :: "landmark \<Rightarrow> real list" where
  "point_floats p = [fround (world_x (x p)), fround (world_y (y p)), fround (world_z (z p))]"

text \<open>The spacing of the single-precision numbers around \<open>v\<close>.\<close>

definition quantum :: "real \<Rightarrow> real" where
  "quantum v = 2 powi (max (binade \<bar>v\<bar>) (- 126) - 23)"

definition segment_floats :: "landmark option list \<Rightarrow> nat \<times> nat \<Rightarrow> real list" where
  "segment_floats ls c =
     (case (landmark_of ls (fst c), landmark_of ls (snd c)) of
        (Some s, Some e) \<Rightarrow> point_floats s @ point_floats e
      | _ \<Rightarrow> [])"

definition written_floats :: "landmark option list \<Rightarrow> real list" where
  "written_floats ls = concat (map (segment_floats ls) ALL_CONNECTIONS)"

text \<open>A layer as a tick leaves it after drawing the centred full frame into a fresh
  buffer, and a hidden layer with a fresh buffer.\<close>

definition drawn_mesh :: mesh where
  "drawn_mesh = \<lparr>positions = new_positions, needsUpdate = True, visible = True\<rparr>"

definition hidden_mesh :: mesh where
  "hidden_mesh = \<lparr>positions = new_positions, needsUpdate = False, visible = False\<rparr>"

text \<open>
  A full frame whose landmark \<open>j\<close> lies at \<open>x = (75 - j) / 150\<close>, \<open>y = 0.5\<close>,
  \<open>z = 0\<close>, so that its world position is \<open>(j / 10, 0, 0)\<close>, stored as the nearest
  single-precision numbers, and the floats of a connection tell which landmarks it joins; the same frame with landmark 11 (the left
  shoulder) missing; the layer as a tick leaves it that draws the full frame into a fresh
  buffer, and as the next tick leaves it that draws the frame without landmark 11.
\<close>

definition spread_landmarks :: "landmark option list" where
  "spread_landmarks =
     map (\<lambda>j. Some \<lparr>x = (75 - real j) / 150, y = 0.5, z = 0, visibility = None\<rparr>) [0..<33]"

definition landmarks_without_11 :: "landmark option list" where
  "landmarks_without_11 = spread_landmarks[11 := None]"

definition spread_frame :: pose_frame where
  "spread_frame = \<lparr>timestamp = 0, landmarks = Some spread_landmarks\<rparr>"

definition frame_without_11 :: pose_frame where
  "frame_without_11 = \<lparr>timestamp = 16, landmarks = Some landmarks_without_11\<rparr>"

definition stale_mesh :: mesh where
  "stale_mesh =
     \<lparr>positions = written_floats spread_landmarks, needsUpdate = True, visible = True\<rparr>"

definition after_mesh :: mesh where
  "after_mesh =
     \<lparr>positions = written_floats landmarks_without_11 @ drop 192 (written_floats spread_landmarks),
      needsUpdate = True, visible = True\<rparr>"




section \<open>The history store is bounded and first-in first-out\<close>

lemma push_frame_drop:
  assumes "length h \<le> 200"
  shows "push_frame h f = drop (Suc (length h) - 200) (h @ [f])"
proof (cases "length h < 200")
  case True
  then show ?thesis by (simp add: push_frame_def)
next
  case False
  with assms have "length h = 200" by simp
  then have "Suc (length h) - 200 = Suc 0" and "h \<noteq> []" by auto
  then show ?thesis using \<open>length h = 200\<close>
    by (simp add: push_frame_def drop_Suc)
qed

lemma foldl_push_frame:
  "foldl push_frame [] fs = drop (length fs - 200) fs"
proof (induction fs rule: rev_induct)
  case Nil
  then show ?case by simp
next
  case (snoc f fs)
  let ?h = "drop (length fs - 200) fs"
  have len: "length ?h \<le> 200" by simp
  have "foldl push_frame [] (fs @ [f]) = push_frame ?h f" using snoc by simp
  also have "\<dots> = drop (Suc (length ?h) - 200) (?h @ [f])" by (rule push_frame_drop[OF len])
  also have "\<dots> = drop (length (fs @ [f]) - 200) (fs @ [f])"
  proof (cases "length fs < 200")
    case True
    then show ?thesis by simp
  next
    case False
    then have a: "Suc (length ?h) - 200 = Suc 0" by simp
    have b: "length (fs @ [f]) - 200 = Suc (length fs - 200)" using False by simp
    have c: "length fs - 200 \<le> length fs" by simp
    show ?thesis unfolding a b using c by (simp add: drop_Suc tl_drop tl_append split: list.splits)
  qed
  finally show ?case .
qed

lemma foldl_onResults:
  "foldl (\<lambda>h (now, ls). onResults now (Some ls) h) [] rs =
   foldl push_frame [] (map (\<lambda>(now, ls). \<lparr>timestamp = now, landmarks = Some ls\<rparr>) rs)"
  by (induction rs rule: rev_induct) (simp_all add: onResults_def split: prod.splits)

text \<open>
  C4. Feed the callback any sequence \<open>rs\<close> of results that carry landmarks, each with
  its arrival time, starting from the empty history. The history then holds the frames of
  the last 200 results (all of them when there are fewer), in arrival order, so its
  length is \<open>min (length rs) 200\<close>; and an append to a history of length 200 drops the
  head and puts the new frame at the tail.
\<close>

theorem history_bounded_fifo:
  "foldl (\<lambda>h (now, ls). onResults now (Some ls) h) [] rs =
     drop (length rs - 200) (map (\<lambda>(now, ls). \<lparr>timestamp = now, landmarks = Some ls\<rparr>) rs) \<and>
   length (foldl (\<lambda>h (now, ls). onResults now (Some ls) h) [] rs) = min (length rs) 200 \<and>
   (length h = 200 \<longrightarrow>
      onResults t (Some lms) h = tl h @ [\<lparr>timestamp = t, landmarks = Some lms\<rparr>])"
proof -
  have "length h = 200 \<Longrightarrow>
      onResults t (Some lms) h = tl h @ [\<lparr>timestamp = t, landmarks = Some lms\<rparr>]"
    by (cases h) (simp_all add: onResults_def push_frame_def)
  then show ?thesis by (simp add: foldl_onResults foldl_push_frame)
qed

theorem history_bounded_fifo_witness:
  "length (replicate 200 (example_frame 0)) = 200 \<and>
   onResults 7 (Some []) (replicate 200 (example_frame 0)) =
     tl (replicate 200 (example_frame 0)) @ [\<lparr>timestamp = 7, landmarks = Some []\<rparr>]"
  using history_bounded_fifo [of "[]" "replicate 200 (example_frame 0)" 7 "[]"]
  by simp

section \<open>The nearest-frame search\<close>

lemma sorted_timestamps_mono:
  assumes "sorted (map timestamp history)" "i \<le> j" "j < length history"
  shows "timestamp (history ! i) \<le> timestamp (history ! j)"
  using sorted_nth_mono[OF assms(1), of i j] assms(2,3) by simp

text \<open>Once a frame after the best one is farther from the target than the best one,
  every later frame is farther too: the timestamps have passed the target.\<close>

lemma break_is_safe:
  assumes srt: "sorted (map timestamp history)"
    and "b < f" "f < length history"
    and gt: "\<bar>timestamp (history ! b) - T\<bar> < \<bar>timestamp (history ! f) - T\<bar>"
    and "f \<le> j" "j < length history"
  shows "\<bar>timestamp (history ! b) - T\<bar> < \<bar>timestamp (history ! j) - T\<bar>"
proof -
  have "timestamp (history ! b) \<le> timestamp (history ! f)"
    using sorted_timestamps_mono[OF srt, of b f] assms by simp
  moreover have "timestamp (history ! f) \<le> timestamp (history ! j)"
    using sorted_timestamps_mono[OF srt, of f j] assms by simp
  ultimately show ?thesis using gt by linarith
qed

lemma scan_from_step:
  assumes "f < length history"
  shows "scan_from history T f bestFrame minDiff =
     (let diff = \<bar>timestamp (history ! f) - T\<bar>
      in if diff < minDiff then scan_from history T (Suc f) (Some (history ! f)) diff
         else if diff > minDiff then Inr (bestFrame, minDiff)
         else scan_from history T (Suc f) bestFrame minDiff)"
  using assms
  by (subst scan_from.simps) (simp add: get_timestamp_def at_index_def Let_def)

lemma scan_from_done:
  assumes "\<not> f < length history"
  shows "scan_from history T f bestFrame minDiff = Inr (bestFrame, minDiff)"
  using assms by (subst scan_from.simps) simp

lemma findNearest_nonempty:
  assumes "history \<noteq> []"
  shows "findNearest history T =
     scan_from history T 1 (Some (history ! 0)) \<bar>timestamp (history ! 0) - T\<bar>"
  using assms by (simp add: findNearest_def get_timestamp_def at_index_def)

text \<open>The loop invariant: the best frame is the first one of least distance among the
  frames scanned so far.\<close>

lemma scan_from_argmin:
  assumes srt: "sorted (map timestamp history)"
  shows "b < f \<Longrightarrow> f \<le> length history \<Longrightarrow>
     (\<forall>j<f. \<bar>timestamp (history ! b) - T\<bar> \<le> \<bar>timestamp (history ! j) - T\<bar>) \<Longrightarrow>
     (\<forall>j<b. \<bar>timestamp (history ! b) - T\<bar> < \<bar>timestamp (history ! j) - T\<bar>) \<Longrightarrow>
     \<exists>k<length history.
        scan_from history T f (Some (history ! b)) \<bar>timestamp (history ! b) - T\<bar> =
          Inr (Some (history ! k), \<bar>timestamp (history ! k) - T\<bar>) \<and>
        (\<forall>j<length history. \<bar>timestamp (history ! k) - T\<bar> \<le> \<bar>timestamp (history ! j) - T\<bar>) \<and>
        (\<forall>j<k. \<bar>timestamp (history ! k) - T\<bar> < \<bar>timestamp (history ! j) - T\<bar>)"
proof (induction "length history - f" arbitrary: f b)
  case 0
  then have "f = length history" by simp
  then show ?case using 0 by (intro exI[of _ b]) (simp add: scan_from_done)
next
  case (Suc n)
  then have flt: "f < length history" by simp
  let ?d = "\<lambda>i. \<bar>timestamp (history ! i) - T\<bar>"
  consider (less) "?d f < ?d b" | (greater) "?d b < ?d f" | (equal) "?d f = ?d b" by linarith
  then show ?case
  proof cases
    case less
    have "\<exists>k<length history.
        scan_from history T (Suc f) (Some (history ! f)) (?d f) =
          Inr (Some (history ! k), ?d k) \<and>
        (\<forall>j<length history. ?d k \<le> ?d j) \<and> (\<forall>j<k. ?d k < ?d j)"
    proof (rule Suc.hyps(1))
      show "n = length history - Suc f" using Suc.hyps(2) by simp
      show "f < Suc f" by simp
      show "Suc f \<le> length history" using flt by simp
      show "\<forall>j<Suc f. ?d f \<le> ?d j"
      proof (intro allI impI)
        fix j assume "j < Suc f"
        then show "?d f \<le> ?d j" using Suc.prems(3) less
          by (cases "j = f") (auto simp: less_Suc_eq dest!: spec[of _ j])
      qed
      show "\<forall>j<f. ?d f < ?d j"
      proof (intro allI impI)
        fix j assume "j < f"
        then have "?d b \<le> ?d j" using Suc.prems(3) by simp
        then show "?d f < ?d j" using less by linarith
      qed
    qed
    then show ?thesis using less flt by (simp add: scan_from_step)
  next
    case greater
    have "\<forall>j<length history. ?d b \<le> ?d j"
    proof (intro allI impI)
      fix j assume j: "j < length history"
      show "?d b \<le> ?d j"
      proof (cases "j < f")
        case True
        then show ?thesis using Suc.prems(3) by simp
      next
        case False
        then have "?d b < ?d j"
          using break_is_safe[OF srt Suc.prems(1) flt greater, of j] j by simp
        then show ?thesis by simp
      qed
    qed
    moreover have "b < length history" using Suc.prems(1) flt by simp
    ultimately show ?thesis using greater flt Suc.prems(4)
      by (intro exI[of _ b]) (simp add: scan_from_step)
  next
    case equal
    have "\<exists>k<length history.
        scan_from history T (Suc f) (Some (history ! b)) (?d b) =
          Inr (Some (history ! k), ?d k) \<and>
        (\<forall>j<length history. ?d k \<le> ?d j) \<and> (\<forall>j<k. ?d k < ?d j)"
    proof (rule Suc.hyps(1))
      show "n = length history - Suc f" using Suc.hyps(2) by simp
      show "b < Suc f" using Suc.prems(1) by simp
      show "Suc f \<le> length history" using flt by simp
      show "\<forall>j<Suc f. ?d b \<le> ?d j"
      proof (intro allI impI)
        fix j assume "j < Suc f"
        then show "?d b \<le> ?d j" using Suc.prems(3) equal
          by (cases "j = f") (auto simp: less_Suc_eq)
      qed
      show "\<forall>j<b. ?d b < ?d j" using Suc.prems(4) .
    qed
    then show ?thesis using equal flt by (simp add: scan_from_step)
  qed
qed

text \<open>
  C1. On a non-empty history whose timestamps never decrease, the search returns a frame
  \<open>history ! k\<close> together with its distance to the target; no frame of the history is
  nearer to the target, and every frame before position \<open>k\<close> is strictly farther, so
  among the frames of least distance the first one in scan order is returned.
\<close>

theorem findNearest_minimizes:
  assumes "history \<noteq> []" and "sorted (map timestamp history)"
  shows "\<exists>k<length history.
     findNearest history T = Inr (Some (history ! k), \<bar>timestamp (history ! k) - T\<bar>) \<and>
     (\<forall>j<length history. \<bar>timestamp (history ! k) - T\<bar> \<le> \<bar>timestamp (history ! j) - T\<bar>) \<and>
     (\<forall>j<k. \<bar>timestamp (history ! k) - T\<bar> < \<bar>timestamp (history ! j) - T\<bar>)"
proof -
  have "1 \<le> length history" using assms(1) by (cases history) simp_all
  then show ?thesis
    unfolding findNearest_nonempty[OF assms(1)]
    using scan_from_argmin[OF assms(2), of 0 1 T] by simp
qed

text \<open>The scenario of the specification: frames at 1000 and 1030, target 1010.\<close>

theorem findNearest_minimizes_witness:
  "example_history \<noteq> [] \<and> sorted (map timestamp example_history) \<and>
   findNearest example_history 1010 = Inr (Some (example_frame 1000), 10) \<and>
   (\<exists>k<length example_history.
     findNearest example_history 1010 =
       Inr (Some (example_history ! k), \<bar>timestamp (example_history ! k) - 1010\<bar>) \<and>
     (\<forall>j<length example_history.
        \<bar>timestamp (example_history ! k) - 1010\<bar> \<le> \<bar>timestamp (example_history ! j) - 1010\<bar>) \<and>
     (\<forall>j<k. \<bar>timestamp (example_history ! k) - 1010\<bar> < \<bar>timestamp (example_history ! j) - 1010\<bar>))"
proof -
  have ne: "example_history \<noteq> []" by (simp add: example_history_def)
  have srt: "sorted (map timestamp example_history)"
    by (simp add: example_history_def example_frame_def)
  have val: "findNearest example_history 1010 = Inr (Some (example_frame 1000), 10)"
    by (simp add: findNearest_nonempty[OF ne])
       (simp add: example_history_def example_frame_def scan_from_step scan_from_done)
  show ?thesis using ne srt val findNearest_minimizes [OF ne srt, of 1010] by simp
qed

text \<open>The full scan leaves the best frame alone when no remaining frame is nearer.\<close>

lemma full_scan_from_no_better:
  "\<forall>fr\<in>set rest. \<not> \<bar>timestamp fr - T\<bar> < minDiff \<Longrightarrow>
   full_scan_from T rest (bestFrame, minDiff) = (bestFrame, minDiff)"
  by (induction rest) simp_all

lemma scan_from_full:
  assumes srt: "sorted (map timestamp history)"
  shows "b < f \<Longrightarrow> f \<le> length history \<Longrightarrow>
     scan_from history T f (Some (history ! b)) \<bar>timestamp (history ! b) - T\<bar> =
       Inr (map_prod Some id
         (full_scan_from T (drop f history) (history ! b, \<bar>timestamp (history ! b) - T\<bar>)))"
proof (induction "length history - f" arbitrary: f b)
  case 0
  then show ?case by (simp add: scan_from_done)
next
  case (Suc n)
  then have flt: "f < length history" by simp
  let ?d = "\<lambda>i. \<bar>timestamp (history ! i) - T\<bar>"
  have dr: "drop f history = history ! f # drop (Suc f) history"
    using flt by (simp add: Cons_nth_drop_Suc)
  consider (less) "?d f < ?d b" | (greater) "?d b < ?d f" | (equal) "?d f = ?d b" by linarith
  then show ?case
  proof cases
    case less
    have "scan_from history T (Suc f) (Some (history ! f)) (?d f) =
       Inr (map_prod Some id (full_scan_from T (drop (Suc f) history) (history ! f, ?d f)))"
      using Suc.hyps(2) flt by (intro Suc.hyps(1)) simp_all
    then show ?thesis using less flt by (simp add: scan_from_step dr)
  next
    case greater
    have "\<forall>fr\<in>set (drop f history). \<not> \<bar>timestamp fr - T\<bar> < ?d b"
    proof
      fix fr assume "fr \<in> set (drop f history)"
      then obtain i where i: "i < length history - f" "fr = history ! (f + i)"
        by (auto simp: in_set_conv_nth)
      then have "?d b < ?d (f + i)"
        using break_is_safe[OF srt Suc.prems(1) flt greater, of "f + i"] by simp
      then show "\<not> \<bar>timestamp fr - T\<bar> < ?d b" using i by simp
    qed
    then have "full_scan_from T (drop f history) (history ! b, ?d b) = (history ! b, ?d b)"
      by (rule full_scan_from_no_better)
    then show ?thesis using greater flt by (simp add: scan_from_step)
  next
    case equal
    have "scan_from history T (Suc f) (Some (history ! b)) (?d b) =
       Inr (map_prod Some id (full_scan_from T (drop (Suc f) history) (history ! b, ?d b)))"
      using Suc.hyps(2) flt Suc.prems(1) by (intro Suc.hyps(1)) simp_all
    then show ?thesis using equal flt by (simp add: scan_from_step dr)
  qed
qed

text \<open>
  C2. On a history whose timestamps never decrease, the loop with the early exit returns
  the frame and the distance that the full linear scan returns; the full scan has no
  result only on the empty history, on which the render tick runs no search.
\<close>

theorem early_exit_equals_full_scan:
  assumes "sorted (map timestamp history)"
  shows "case full_scan history T of
           None \<Rightarrow> history = []
         | Some (fr, d) \<Rightarrow> findNearest history T = Inr (Some fr, d)"
proof (cases history)
  case Nil
  then show ?thesis by (simp add: full_scan_def)
next
  case (Cons fr rest)
  then have ne: "history \<noteq> []" by simp
  have "scan_from history T 1 (Some (history ! 0)) \<bar>timestamp (history ! 0) - T\<bar> =
       Inr (map_prod Some id
         (full_scan_from T (drop 1 history) (history ! 0, \<bar>timestamp (history ! 0) - T\<bar>)))"
    using Cons by (intro scan_from_full[OF assms]) simp_all
  then have "findNearest history T =
       Inr (map_prod Some id
         (full_scan_from T (drop 1 history) (history ! 0, \<bar>timestamp (history ! 0) - T\<bar>)))"
    by (simp only: findNearest_nonempty[OF ne])
  then show ?thesis using Cons
    by (simp add: full_scan_def split: prod.splits)
qed

theorem early_exit_equals_full_scan_witness:
  "sorted (map timestamp example_history) \<and>
   full_scan example_history 1010 = Some (example_frame 1000, 10) \<and>
   findNearest example_history 1010 = Inr (Some (example_frame 1000), 10)"
proof -
  have srt: "sorted (map timestamp example_history)"
    by (simp add: example_history_def example_frame_def)
  have val: "full_scan example_history 1010 = Some (example_frame 1000, 10)"
    by (simp add: full_scan_def example_history_def example_frame_def)
  show ?thesis using srt val early_exit_equals_full_scan [OF srt, of 1010] by simp
qed

section \<open>Rounding to single precision\<close>

subsection \<open>Rounding to the nearest integer, ties to even\<close>








subsection \<open>The binade of a positive number\<close>



subsection \<open>Rounding to single precision\<close>

lemma fround_quantum: "fround v = of_int (round_even (v / quantum v)) * quantum v"
  by (simp add: fround_def quantum_def Let_def)

lemma quantum_pos [simp]: "0 < quantum v"
  by (simp add: quantum_def)

lemma quantum_nonneg [simp]: "0 \<le> quantum v"
  using quantum_pos[of v] by (rule less_imp_le)

lemma quantum_neq0 [simp]: "quantum v \<noteq> 0"
  using quantum_pos[of v] by (rule less_imp_neq[symmetric])

lemma round_even_zero [simp]: "round_even 0 = 0"
  by (simp add: round_even_def)

lemma quantum_minus [simp]: "quantum (- v) = quantum v"
  by (simp add: quantum_def)

lemma binade_zero [simp]: "binade 0 = 0"
  by (subst binade.simps) simp

lemma fround_zero [simp]: "fround 0 = 0"
  by (simp add: fround_quantum)










section \<open>The render tick\<close>

subsection \<open>The search and the segment writer return\<close>

lemma scan_from_total:
  "\<exists>fr d. scan_from history T f (Some b) minDiff = Inr (Some fr, d)"
proof (induction "length history - f" arbitrary: f b minDiff)
  case 0
  then show ?case by (simp add: scan_from_done)
next
  case (Suc n)
  then have flt: "f < length history" by simp
  have n: "n = length history - Suc f" using Suc.hyps(2) by simp
  show ?case
    using Suc.hyps(1)[OF n, of "history ! f" "\<bar>timestamp (history ! f) - T\<bar>"]
      Suc.hyps(1)[OF n, of b minDiff]
    by (auto simp: scan_from_step[OF flt] Let_def)
qed

lemma findNearest_total:
  assumes "history \<noteq> []"
  shows "\<exists>fr d. findNearest history T = Inr (Some fr, d)"
  unfolding findNearest_nonempty[OF assms] by (rule scan_from_total)

lemma scan_from_result:
  "b \<in> set history \<Longrightarrow>
   \<exists>fr. scan_from history T f (Some b) \<bar>timestamp b - T\<bar> = Inr (Some fr, \<bar>timestamp fr - T\<bar>) \<and>
        fr \<in> set history"
proof (induction "length history - f" arbitrary: f b)
  case 0
  then show ?case by (simp add: scan_from_done)
next
  case (Suc n)
  then have flt: "f < length history" by simp
  have n: "n = length history - Suc f" using Suc.hyps(2) by simp
  have mem: "history ! f \<in> set history" using flt by simp
  show ?case
    using Suc.hyps(1)[OF n mem] Suc.hyps(1)[OF n Suc.prems] Suc.prems
    by (auto simp: scan_from_step[OF flt] Let_def)
qed

lemma findNearest_result:
  assumes "history \<noteq> []"
  shows "\<exists>fr. findNearest history T = Inr (Some fr, \<bar>timestamp fr - T\<bar>) \<and> fr \<in> set history"
proof -
  have "history ! 0 \<in> set history" using assms by simp
  then show ?thesis unfolding findNearest_nonempty[OF assms] by (rule scan_from_result)
qed

lemma findNearest_empty: "findNearest [] T = Inl TypeError"
  by (simp add: findNearest_def get_timestamp_def at_index_def)

lemma write_point_Some:
  "write_point (Some lm) (p, ps) =
     Inr (p + 3, put (put (put ps p (world_x (x lm))) (p + 1) (world_y (y lm))) (p + 2) (world_z (z lm)))"
  by (simp add: write_point_def)

lemma length_put [simp]: "length (put ps i v) = length ps"
  by (simp add: put_def)

lemma put3_splice:
  assumes "p + 3 \<le> length ps"
  shows "put (put (put ps p a) (p + 1) b) (p + 2) c =
     take p ps @ [fround a, fround b, fround c] @ drop (p + 3) ps"
proof (rule nth_equalityI)
  show "length (put (put (put ps p a) (p + 1) b) (p + 2) c) =
     length (take p ps @ [fround a, fround b, fround c] @ drop (p + 3) ps)"
    using assms by simp
next
  fix i assume "i < length (put (put (put ps p a) (p + 1) b) (p + 2) c)"
  then have i: "i < length ps" by simp
  consider "i < p" | "i = p" | "i = p + 1" | "i = p + 2" | "p + 3 \<le> i" by linarith
  then show "put (put (put ps p a) (p + 1) b) (p + 2) c ! i =
     (take p ps @ [fround a, fround b, fround c] @ drop (p + 3) ps) ! i"
  proof cases
    case 1 then show ?thesis using assms i by (simp add: put_def nth_append)
  next
    case 2 then show ?thesis using assms i by (simp add: put_def nth_append)
  next
    case 3 then show ?thesis using assms i by (simp add: put_def nth_append)
  next
    case 4 then show ?thesis using assms i by (simp add: put_def nth_append)
  next
    case 5 
    then have "i - p - 3 + (p + 3) = i" by simp
    then show ?thesis using assms i 5 by (simp add: put_def nth_append add.commute)
  qed
qed

lemma write_point_splice:
  assumes "p + 3 \<le> length ps"
  shows "write_point (Some lm) (p, ps) = Inr (p + 3, take p ps @ point_floats lm @ drop (p + 3) ps)"
  using put3_splice[OF assms] by (simp add: write_point_Some point_floats_def)

lemma length_segment_floats:
  "length (segment_floats ls c) =
     (if landmark_of ls (fst c) \<noteq> None \<and> landmark_of ls (snd c) \<noteq> None then 6 else 0)"
  by (auto simp: segment_floats_def point_floats_def split: option.splits)

lemma write_segment_splice:
  assumes "p + 6 \<le> length ps" and "landmark_of ls a = Some s" and "landmark_of ls b = Some e"
  shows "\<exists>st1. write_point (Some s) (p, ps) = Inr st1 \<and>
           write_point (Some e) st1 = Inr (p + 6, take p ps @ segment_floats ls (a, b) @ drop (p + 6) ps)"
proof -
  have 1: "write_point (Some s) (p, ps) = Inr (p + 3, take p ps @ point_floats s @ drop (p + 3) ps)"
    using assms(1) by (intro write_point_splice) simp
  let ?ps1 = "take p ps @ point_floats s @ drop (p + 3) ps"
  have len: "length ?ps1 = length ps" using assms(1) by (simp add: point_floats_def)
  have 2: "write_point (Some e) (p + 3, ?ps1) =
      Inr (p + 3 + 3, take (p + 3) ?ps1 @ point_floats e @ drop (p + 3 + 3) ?ps1)"
    using assms(1) len by (intro write_point_splice) simp
  have t: "take (p + 3) ?ps1 = take p ps @ point_floats s"
    using assms(1) by (simp add: point_floats_def)
  have d: "drop (p + 3 + 3) ?ps1 = drop (p + 6) ps"
    using assms(1) by (simp add: point_floats_def add.commute)
  show ?thesis using 1 2 assms(2,3) unfolding t d
    by (simp add: segment_floats_def)
qed

lemma write_connections_splice:
  "p + 6 * length conns \<le> length ps \<Longrightarrow>
   write_connections (Some ls) conns (p, ps) =
     Inr (p + length (concat (map (segment_floats ls) conns)),
          take p ps @ concat (map (segment_floats ls) conns) @
          drop (p + length (concat (map (segment_floats ls) conns))) ps)"
proof (induction conns arbitrary: p ps)
  case Nil
  then show ?case by simp
next
  case (Cons c conns)
  obtain a b where c: "c = (a, b)" by (cases c)
  let ?W = "concat (map (segment_floats ls) conns)"
  show ?case
  proof (cases "landmark_of ls a \<noteq> None \<and> landmark_of ls b \<noteq> None")
    case False
    then have "segment_floats ls (a, b) = []"
      by (auto simp: segment_floats_def split: option.splits)
    moreover have "p + 6 * length conns \<le> length ps" using Cons.prems by simp
    ultimately show ?thesis using False Cons.IH[of p ps] c
      by (auto simp: landmark_at_def)
  next
    case True
    then obtain s e where se: "landmark_of ls a = Some s" "landmark_of ls b = Some e" by auto
    let ?S = "segment_floats ls (a, b)"
    let ?ps2 = "take p ps @ ?S @ drop (p + 6) ps"
    have p6: "p + 6 \<le> length ps" using Cons.prems by simp
    have lenS: "length ?S = 6" using se by (simp add: length_segment_floats)
    have len2: "length ?ps2 = length ps" using p6 lenS by simp
    obtain st1 where w: "write_point (Some s) (p, ps) = Inr st1"
      "write_point (Some e) st1 = Inr (p + 6, ?ps2)"
      using write_segment_splice[OF p6 se] by blast
    have ih: "write_connections (Some ls) conns (p + 6, ?ps2) =
        Inr (p + 6 + length ?W, take (p + 6) ?ps2 @ ?W @ drop (p + 6 + length ?W) ?ps2)"
      using Cons.prems len2 by (intro Cons.IH) simp
    have t: "take (p + 6) ?ps2 = take p ps @ ?S" using p6 lenS by simp
    have d: "drop (p + 6 + length ?W) ?ps2 = drop (p + 6 + length ?W) ps"
      using p6 lenS by (simp add: add.commute add.left_commute)
    have "write_connections (Some ls) (c # conns) (p, ps) =
        write_connections (Some ls) conns (p + 6, ?ps2)"
      using c se w by (simp add: landmark_at_def)
    then show ?thesis using ih c lenS unfolding t d by (simp add: add.assoc)
  qed
qed

lemma write_connections_total:
  "\<exists>p' ps'. write_connections (Some ls) conns (p, ps) = Inr (p', ps') \<and>
      length ps' = length ps \<and> p' \<le> p + 6 * length conns"
proof (induction conns arbitrary: p ps)
  case Nil
  then show ?case by simp
next
  case (Cons c conns)
  obtain a b where c: "c = (a, b)" by (cases c)
  show ?case
  proof (cases "landmark_of ls a \<noteq> None \<and> landmark_of ls b \<noteq> None")
    case False
    then show ?thesis using Cons.IH[of p ps] c by (auto simp: landmark_at_def)
  next
    case True
    then obtain s e where se: "landmark_of ls a = Some s" "landmark_of ls b = Some e" by auto
    define ps1 where "ps1 = put (put (put ps p (world_x (x s))) (p + 1) (world_y (y s))) (p + 2) (world_z (z s))"
    define ps2 where "ps2 = put (put (put ps1 (p + 3) (world_x (x e))) (p + 3 + 1) (world_y (y e))) (p + 3 + 2) (world_z (z e))"
    have len: "length ps2 = length ps" by (simp add: ps1_def ps2_def)
    have step: "write_connections (Some ls) (c # conns) (p, ps) =
        write_connections (Some ls) conns (p + 3 + 3, ps2)"
      using c se by (simp add: landmark_at_def write_point_Some ps1_def ps2_def)
    obtain p' ps' where r: "write_connections (Some ls) conns (p + 3 + 3, ps2) = Inr (p', ps')"
      "length ps' = length ps2" "p' \<le> p + 3 + 3 + 6 * length conns"
      using Cons.IH[of "p + 3 + 3" ps2] by blast
    show ?thesis using step r len by simp
  qed
qed

subsection \<open>One tick over all layers\<close>

lemma draw_nearest_cases:
  assumes "findNearest history T = Inr (Some fr, d)"
  shows "draw_nearest history T m =
     (case landmarks fr of
        Some ls \<Rightarrow>
          if d < 1000 then
            (case write_connections (Some ls) ALL_CONNECTIONS (0, positions m) of
               Inl e \<Rightarrow> Inl e
             | Inr (pIdx, ps) \<Rightarrow> Inr (m\<lparr>positions := ps, needsUpdate := True, visible := True\<rparr>))
          else Inr (m\<lparr>visible := False\<rparr>)
      | None \<Rightarrow> Inr (m\<lparr>visible := False\<rparr>))"
  using assms by (simp add: draw_nearest_def get_landmarks_def split: option.splits)

lemma draw_nearest_total:
  assumes "history \<noteq> []"
  shows "\<exists>m'. draw_nearest history T m = Inr m' \<and> length (positions m') = length (positions m)"
proof -
  obtain fr d where fn: "findNearest history T = Inr (Some fr, d)"
    using findNearest_total[OF assms] by blast
  show ?thesis
  proof (cases "landmarks fr")
    case None
    then show ?thesis by (simp add: draw_nearest_cases[OF fn])
  next
    case (Some ls)
    obtain p' ps' where "write_connections (Some ls) ALL_CONNECTIONS (0, positions m) = Inr (p', ps')"
      "length ps' = length (positions m)"
      using write_connections_total[of ls ALL_CONNECTIONS 0 "positions m"] by blast
    then show ?thesis using Some by (simp add: draw_nearest_cases[OF fn])
  qed
qed

lemma forEach_total:
  assumes "\<And>m i. \<exists>m'. callback m i = Inr m'"
  shows "\<exists>ms. forEach callback meshes n = Inr ms \<and> length ms = length meshes \<and>
           (\<forall>i<length meshes. callback (meshes ! i) (n + i) = Inr (ms ! i))"
proof (induction meshes arbitrary: n)
  case Nil
  then show ?case by simp
next
  case (Cons m meshes)
  obtain m' where m': "callback m n = Inr m'" using assms by blast
  obtain ms where ms: "forEach callback meshes (Suc n) = Inr ms" "length ms = length meshes"
    "\<forall>i<length meshes. callback (meshes ! i) (Suc n + i) = Inr (ms ! i)"
    using Cons.IH[of "Suc n"] by blast
  have "\<forall>i<length (m # meshes). callback ((m # meshes) ! i) (n + i) = Inr ((m' # ms) ! i)"
  proof (intro allI impI)
    fix i assume "i < length (m # meshes)"
    then show "callback ((m # meshes) ! i) (n + i) = Inr ((m' # ms) ! i)"
      using m' ms(3) by (cases i) simp_all
  qed
  then show ?case using m' ms(1,2) by simp
qed

lemma animate_nonempty:
  assumes "history \<noteq> []"
  shows "\<exists>ms. animate history now meshes = Inr ms \<and> length ms = length meshes \<and>
           (\<forall>i<length meshes. update_mesh history now (meshes ! i) i = Inr (ms ! i))"
proof -
  have "\<And>m i. \<exists>m'. update_mesh history now m i = Inr m'"
    using draw_nearest_total[OF assms] unfolding update_mesh_def Let_def by blast
  then show ?thesis using assms forEach_total[of "update_mesh history now" meshes 0]
    by (simp add: animate_def)
qed

lemma animate_empty: "animate [] now meshes = Inr meshes"
  by (simp add: animate_def)

subsection \<open>Segments of six floats\<close>

lemma length_concat_six:
  "\<forall>c\<in>set cs. length (f c) = 6 \<Longrightarrow> length (concat (map f cs)) = 6 * length cs"
  by (induction cs) simp_all

lemma slot_of_concat_six:
  "\<forall>c\<in>set cs. length (f c) = 6 \<Longrightarrow> j < length cs \<Longrightarrow>
   take 6 (drop (6 * j) (concat (map f cs))) = f (cs ! j)"
proof (induction cs arbitrary: j)
  case Nil
  then show ?case by simp
next
  case (Cons c cs)
  have len: "length (f c) = 6" using Cons.prems(1) by simp
  show ?case
  proof (cases j)
    case 0
    then show ?thesis using len by simp
  next
    case (Suc j')
    then have "6 * j - length (f c) = 6 * j'" using len by simp
    moreover have "drop (6 * j) (f c) = []" using len Suc by simp
    ultimately show ?thesis using Cons Suc by simp
  qed
qed

lemma draw_nearest_writes:
  assumes fn: "findNearest history T = Inr (Some fr, d)"
    and lms: "landmarks fr = Some ls" and d: "d < 1000"
    and len: "length (positions m) = length ALL_CONNECTIONS * 2 * 3"
  shows "draw_nearest history T m =
     Inr (m\<lparr>positions := written_floats ls @ drop (length (written_floats ls)) (positions m),
            needsUpdate := True, visible := True\<rparr>)"
proof -
  have "0 + 6 * length ALL_CONNECTIONS \<le> length (positions m)" using len by simp
  then have "write_connections (Some ls) ALL_CONNECTIONS (0, positions m) =
      Inr (length (written_floats ls),
           written_floats ls @ drop (length (written_floats ls)) (positions m))"
    using write_connections_splice[of 0 ALL_CONNECTIONS "positions m" ls]
    by (simp add: written_floats_def)
  then show ?thesis using lms d by (simp add: draw_nearest_cases[OF fn])
qed

lemma length_written_floats:
  "length (concat (map (segment_floats ls) cs)) =
     6 * length (filter (\<lambda>c. landmark_of ls (fst c) \<noteq> None \<and> landmark_of ls (snd c) \<noteq> None) cs)"
  by (induction cs) (simp_all add: length_segment_floats)

subsection \<open>Concrete ticks\<close>

lemma length_ALL_CONNECTIONS: "length ALL_CONNECTIONS = 35"
  by (simp add: ALL_CONNECTIONS_def POSE_CONNECTIONS_def FACE_CONNECTIONS_def)

lemma length_new_positions: "length new_positions = 210"
  by (simp add: new_positions_def length_ALL_CONNECTIONS)

lemma findNearest_single:
  "findNearest [fr] T = Inr (Some fr, \<bar>timestamp fr - T\<bar>)"
  by (simp add: findNearest_def get_timestamp_def at_index_def scan_from_done)

lemma full_landmarks_present:
  "\<forall>c\<in>set ALL_CONNECTIONS. landmark_of full_landmarks (fst c) \<noteq> None \<and> landmark_of full_landmarks (snd c) \<noteq> None"
  by (simp add: ALL_CONNECTIONS_def POSE_CONNECTIONS_def FACE_CONNECTIONS_def landmark_of_def full_landmarks_def)

lemma written_full: "written_floats full_landmarks = new_positions"
  by code_simp

lemma draw_example_frame:
  "draw_nearest [example_frame 0] T hidden_mesh = Inr (if \<bar>T\<bar> < 1000 then drawn_mesh else hidden_mesh)"
proof (cases "\<bar>T\<bar> < 1000")
  case True
  have fn: "findNearest [example_frame 0] T = Inr (Some (example_frame 0), \<bar>T\<bar>)"
    using findNearest_single[of "example_frame 0" T] by (simp add: example_frame_def)
  have "draw_nearest [example_frame 0] T hidden_mesh =
     Inr (hidden_mesh\<lparr>positions := written_floats full_landmarks @ drop (length (written_floats full_landmarks)) (positions hidden_mesh),
            needsUpdate := True, visible := True\<rparr>)"
    using True by (intro draw_nearest_writes[OF fn])
      (simp_all add: example_frame_def hidden_mesh_def length_new_positions length_ALL_CONNECTIONS)
  then show ?thesis using True
    by (simp add: written_full hidden_mesh_def drawn_mesh_def)
next
  case False
  have fn: "findNearest [example_frame 0] T = Inr (Some (example_frame 0), \<bar>T\<bar>)"
    using findNearest_single[of "example_frame 0" T] by (simp add: example_frame_def)
  show ?thesis using False draw_nearest_cases[OF fn, of hidden_mesh]
    by (simp add: example_frame_def hidden_mesh_def)
qed

lemma tick1: "animate [example_frame 0] 0 (replicate 15 hidden_mesh) =
    Inr (replicate 6 drawn_mesh @ replicate 9 hidden_mesh)"
  by (simp add: animate_def eval_nat_numeral update_mesh_def draw_example_frame
      TRAIL_COUNT_def MAX_DELAY_MS_def)

lemma length_written_spread: "length (written_floats spread_landmarks) = 210"
  by (simp add: written_floats_def ALL_CONNECTIONS_def POSE_CONNECTIONS_def FACE_CONNECTIONS_def
      segment_floats_def landmark_of_def spread_landmarks_def landmarks_without_11_def
      point_floats_def world_x_def world_y_def world_z_def)

lemma take_written_spread:
  "take 6 (written_floats spread_landmarks) = [fround (11 / 10), 0, 0, fround (12 / 10), 0, 0]"
  by (simp add: written_floats_def ALL_CONNECTIONS_def POSE_CONNECTIONS_def FACE_CONNECTIONS_def
      segment_floats_def landmark_of_def spread_landmarks_def landmarks_without_11_def
      point_floats_def world_x_def world_y_def world_z_def)

lemma drop_written_spread:
  "drop 192 (written_floats spread_landmarks) =
     [fround (4 / 10), 0, 0, fround (5 / 10), 0, 0, fround (5 / 10), 0, 0, fround (6 / 10), 0, 0,
      fround (6 / 10), 0, 0, fround (8 / 10), 0, 0]"
  by (simp add: written_floats_def ALL_CONNECTIONS_def POSE_CONNECTIONS_def FACE_CONNECTIONS_def
      segment_floats_def landmark_of_def spread_landmarks_def landmarks_without_11_def
      point_floats_def world_x_def world_y_def world_z_def)

lemma length_written_without_11: "length (written_floats landmarks_without_11) = 192"
  by (simp add: written_floats_def ALL_CONNECTIONS_def POSE_CONNECTIONS_def FACE_CONNECTIONS_def
      segment_floats_def landmark_of_def spread_landmarks_def landmarks_without_11_def
      point_floats_def world_x_def world_y_def world_z_def)

lemma take_written_without_11:
  "take 6 (written_floats landmarks_without_11) = [fround (13 / 10), 0, 0, fround (15 / 10), 0, 0]"
  by (simp add: written_floats_def ALL_CONNECTIONS_def POSE_CONNECTIONS_def FACE_CONNECTIONS_def
      segment_floats_def landmark_of_def spread_landmarks_def landmarks_without_11_def
      point_floats_def world_x_def world_y_def world_z_def)

lemma no_11_written_without_11:
  "fround (11 / 10) \<notin> set (written_floats landmarks_without_11)"
  by code_simp

lemma no_11_kept:
  "fround (11 / 10) \<notin> set [fround (4 / 10), 0, 0, fround (5 / 10), 0, 0, fround (5 / 10), 0, 0,
      fround (6 / 10), 0, 0, fround (6 / 10), 0, 0, fround (8 / 10), 0, 0]"
  by code_simp

lemma fround_values:
  "fround (11 / 10) = 9227469 / 8388608" "fround (12 / 10) = 5033165 / 4194304"
  "fround (13 / 10) = 5452595 / 4194304" "fround (15 / 10) = 15 / 10"
  by code_simp+

lemma landmark_11_missing: "landmark_of landmarks_without_11 11 = None"
  by (simp add: landmark_of_def landmarks_without_11_def spread_landmarks_def)

lemma draw_spread_frame: "draw_nearest [spread_frame] 0 hidden_mesh = Inr stale_mesh"
proof -
  have fn: "findNearest [spread_frame] 0 = Inr (Some spread_frame, 0)"
    using findNearest_single[of spread_frame 0] by (simp add: spread_frame_def)
  have "draw_nearest [spread_frame] 0 hidden_mesh =
     Inr (hidden_mesh\<lparr>positions := written_floats spread_landmarks @
              drop (length (written_floats spread_landmarks)) (positions hidden_mesh),
            needsUpdate := True, visible := True\<rparr>)"
    by (intro draw_nearest_writes[OF fn])
      (simp_all add: spread_frame_def hidden_mesh_def length_new_positions length_ALL_CONNECTIONS)
  then show ?thesis
    by (simp add: length_written_spread hidden_mesh_def stale_mesh_def length_new_positions)
qed

lemma draw_frame_without_11: "draw_nearest [frame_without_11] 16 stale_mesh = Inr after_mesh"
proof -
  have fn: "findNearest [frame_without_11] 16 = Inr (Some frame_without_11, 0)"
    using findNearest_single[of frame_without_11 16] by (simp add: frame_without_11_def)
  have "draw_nearest [frame_without_11] 16 stale_mesh =
     Inr (stale_mesh\<lparr>positions := written_floats landmarks_without_11 @
              drop (length (written_floats landmarks_without_11)) (positions stale_mesh),
            needsUpdate := True, visible := True\<rparr>)"
    by (intro draw_nearest_writes[OF fn])
      (simp_all add: frame_without_11_def stale_mesh_def length_written_spread length_ALL_CONNECTIONS)
  then show ?thesis
    by (simp add: length_written_without_11 stale_mesh_def after_mesh_def)
qed

section \<open>The layers of a tick\<close>

text \<open>
  C7, as the code has it. With 15 layers and a greatest delay of 2500 ms, a tick at time
  \<open>now\<close> on a non-empty history runs, for layer \<open>i\<close>, the nearest-frame search at the
  target timestamp \<open>now - i / (15 - 1) * 2500\<close>: the search returns a frame of the history
  and its distance to that target, and the layer is what the tick makes of this frame. It
  is hidden when the distance is 1000 ms or more or the frame has no landmarks, and
  otherwise shown with the frame's segments written into its buffer. On an empty history
  no layer is sampled: the tick returns the layers as they were.
\<close>

theorem layer_target_timestamp:
  assumes "history \<noteq> []" and "i < length meshes"
  shows "(\<exists>ms fr d.
            animate history now meshes = Inr ms \<and>
            findNearest history (now - real i / (15 - 1) * 2500) = Inr (Some fr, d) \<and>
            fr \<in> set history \<and>
            d = \<bar>timestamp fr - (now - real i / (15 - 1) * 2500)\<bar> \<and>
            draw_nearest history (now - real i / (15 - 1) * 2500) (meshes ! i) = Inr (ms ! i) \<and>
            (1000 \<le> d \<or> landmarks fr = None \<longrightarrow> ms ! i = (meshes ! i)\<lparr>visible := False\<rparr>) \<and>
            (d < 1000 \<and> landmarks fr \<noteq> None \<longrightarrow>
               (\<exists>pIdx ps.
                  write_connections (landmarks fr) ALL_CONNECTIONS (0, positions (meshes ! i)) =
                    Inr (pIdx, ps) \<and>
                  ms ! i = (meshes ! i)\<lparr>positions := ps, needsUpdate := True, visible := True\<rparr>))) \<and>
         animate [] now meshes = Inr meshes"
proof -
  let ?T = "now - real i / (15 - 1) * 2500"
  obtain ms where ms: "animate history now meshes = Inr ms"
    "\<forall>i<length meshes. update_mesh history now (meshes ! i) i = Inr (ms ! i)"
    using animate_nonempty[OF assms(1)] by blast
  have upd: "draw_nearest history ?T (meshes ! i) = Inr (ms ! i)"
    using ms(2) assms(2)
    by (auto simp: update_mesh_def TRAIL_COUNT_def MAX_DELAY_MS_def Let_def)
  obtain fr where fn: "findNearest history ?T = Inr (Some fr, \<bar>timestamp fr - ?T\<bar>)"
    and mem: "fr \<in> set history"
    using findNearest_result[OF assms(1), of ?T] by blast
  let ?d = "\<bar>timestamp fr - ?T\<bar>"
  note cases = draw_nearest_cases[OF fn, of "meshes ! i"]
  have hide: "1000 \<le> ?d \<or> landmarks fr = None \<longrightarrow> ms ! i = (meshes ! i)\<lparr>visible := False\<rparr>"
    using cases upd by (auto split: option.splits)
  have draw: "?d < 1000 \<and> landmarks fr \<noteq> None \<longrightarrow>
      (\<exists>pIdx ps.
          write_connections (landmarks fr) ALL_CONNECTIONS (0, positions (meshes ! i)) =
            Inr (pIdx, ps) \<and>
          ms ! i = (meshes ! i)\<lparr>positions := ps, needsUpdate := True, visible := True\<rparr>)"
    using cases upd by (auto split: option.splits sum.splits)
  have "\<exists>ms fr d.
            animate history now meshes = Inr ms \<and>
            findNearest history ?T = Inr (Some fr, d) \<and>
            fr \<in> set history \<and>
            d = \<bar>timestamp fr - ?T\<bar> \<and>
            draw_nearest history ?T (meshes ! i) = Inr (ms ! i) \<and>
            (1000 \<le> d \<or> landmarks fr = None \<longrightarrow> ms ! i = (meshes ! i)\<lparr>visible := False\<rparr>) \<and>
            (d < 1000 \<and> landmarks fr \<noteq> None \<longrightarrow>
               (\<exists>pIdx ps.
                  write_connections (landmarks fr) ALL_CONNECTIONS (0, positions (meshes ! i)) =
                    Inr (pIdx, ps) \<and>
                  ms ! i = (meshes ! i)\<lparr>positions := ps, needsUpdate := True, visible := True\<rparr>))"
    using ms(1) fn mem upd hide draw by (intro exI[of _ ms] exI[of _ fr] exI[of _ ?d] conjI) simp_all
  then show ?thesis using animate_empty by blast
qed

text \<open>
  One full frame of time 0 and a tick at 3499: the last of the fifteen layers has the
  delay 2500 and the target 999, so it alone is within 1000 ms of the frame and is shown;
  layer 13, with the target 3499 - 13 / 14 * 2500, is hidden like the layers before it.
\<close>

theorem layer_target_timestamp_witness:
  "[example_frame 0] \<noteq> [] \<and> (14::nat) < length (replicate 15 hidden_mesh) \<and>
   findNearest [example_frame 0] (3499 - real 14 / (15 - 1) * 2500) =
     Inr (Some (example_frame 0), 999) \<and>
   animate [example_frame 0] 3499 (replicate 15 hidden_mesh) =
     Inr (replicate 14 hidden_mesh @ [drawn_mesh]) \<and>
   (\<exists>ms fr d.
      animate [example_frame 0] 3499 (replicate 15 hidden_mesh) = Inr ms \<and>
      findNearest [example_frame 0] (3499 - real 14 / (15 - 1) * 2500) = Inr (Some fr, d) \<and>
      d = \<bar>timestamp fr - (3499 - real 14 / (15 - 1) * 2500)\<bar> \<and>
      draw_nearest [example_frame 0] (3499 - real 14 / (15 - 1) * 2500)
        (replicate 15 hidden_mesh ! 14) = Inr (ms ! 14))"
proof -
  have ne: "[example_frame 0] \<noteq> []" by simp
  have i: "(14::nat) < length (replicate 15 hidden_mesh)" by simp
  have fn: "findNearest [example_frame 0] (3499 - real 14 / (15 - 1) * 2500) =
     Inr (Some (example_frame 0), 999)"
    using findNearest_single[of "example_frame 0" "3499 - real 14 / (15 - 1) * 2500"]
    by (simp add: example_frame_def)
  have an: "animate [example_frame 0] 3499 (replicate 15 hidden_mesh) =
     Inr (replicate 14 hidden_mesh @ [drawn_mesh])"
    by (simp add: animate_def eval_nat_numeral update_mesh_def draw_example_frame
        TRAIL_COUNT_def MAX_DELAY_MS_def)
  have "\<exists>ms fr d.
      animate [example_frame 0] 3499 (replicate 15 hidden_mesh) = Inr ms \<and>
      findNearest [example_frame 0] (3499 - real 14 / (15 - 1) * 2500) = Inr (Some fr, d) \<and>
      d = \<bar>timestamp fr - (3499 - real 14 / (15 - 1) * 2500)\<bar> \<and>
      draw_nearest [example_frame 0] (3499 - real 14 / (15 - 1) * 2500)
        (replicate 15 hidden_mesh ! 14) = Inr (ms ! 14)"
    using layer_target_timestamp [OF ne i, of 3499] by blast
  then show ?thesis using ne i fn an by (intro conjI)
qed

text \<open>
  The claim that every tick samples each layer at its target fails on an empty history:
  the search at the target of layer 14 has no frame to return, and the tick leaves the
  fifteen layers as an earlier tick drew them.
\<close>

theorem layer_not_sampled_counterexample:
  "findNearest [] (3499 - real 14 / (15 - 1) * 2500) = Inl TypeError \<and>
   animate [] 3499 (replicate 15 drawn_mesh) = Inr (replicate 15 drawn_mesh) \<and>
   visible (replicate 15 drawn_mesh ! 14)"
  by (simp add: findNearest_empty animate_empty drawn_mesh_def)

text \<open>
  C3. In a tick, when the search for layer \<open>i\<close> returns a distance of 1000 ms or more to
  the layer's target timestamp, the tick sets that layer invisible and changes nothing
  else of it, whatever the landmarks of the frame found.
\<close>

theorem stale_sample_hides_layer:
  assumes "i < length meshes"
    and "findNearest history (now - real i / (real TRAIL_COUNT - 1) * MAX_DELAY_MS) = Inr (bestFrame, minDiff)"
    and "1000 \<le> minDiff"
  shows "\<exists>ms. animate history now meshes = Inr ms \<and> ms ! i = (meshes ! i)\<lparr>visible := False\<rparr>"
proof -
  have ne: "history \<noteq> []" using assms(2) by (auto simp: findNearest_empty)
  obtain ms where ms: "animate history now meshes = Inr ms"
    "\<forall>i<length meshes. update_mesh history now (meshes ! i) i = Inr (ms ! i)"
    using animate_nonempty[OF ne] by blast
  have "update_mesh history now (meshes ! i) i = Inr ((meshes ! i)\<lparr>visible := False\<rparr>)"
    using assms(2,3)
    by (simp add: update_mesh_def draw_nearest_def get_landmarks_def Let_def split: option.splits)
  then show ?thesis using ms assms(1) by auto
qed

text \<open>The scenario of the specification: one full frame at time 0, a tick at 2000.\<close>

theorem stale_sample_hides_layer_witness:
  "(0::nat) < length [drawn_mesh] \<and>
   findNearest [example_frame 0] (2000 - real 0 / (real TRAIL_COUNT - 1) * MAX_DELAY_MS) =
     Inr (Some (example_frame 0), 2000) \<and>
   (1000::real) \<le> 2000 \<and>
   (\<exists>ms. animate [example_frame 0] 2000 [drawn_mesh] = Inr ms \<and>
      ms ! 0 = ([drawn_mesh] ! 0)\<lparr>visible := False\<rparr>)"
proof -
  have i: "(0::nat) < length [drawn_mesh]" by simp
  have fn: "findNearest [example_frame 0] (2000 - real 0 / (real TRAIL_COUNT - 1) * MAX_DELAY_MS) =
     Inr (Some (example_frame 0), 2000)"
    using findNearest_single[of "example_frame 0" 2000] by (simp add: example_frame_def)
  have d: "(1000::real) \<le> 2000" by simp
  show ?thesis using i fn d stale_sample_hides_layer [OF i fn d] by simp
qed

text \<open>
  C5, as the code has it. On an empty history the tick runs no search and leaves every
  layer as it was, its visibility flag and its buffer: a layer that was visible stays
  visible.
\<close>

theorem empty_history_keeps_layers:
  "animate [] now meshes = Inr meshes"
  by (rule animate_empty)

text \<open>
  The claim that such a tick hides all layers fails: a tick at time 0 on the one full
  frame of time 0 shows the first six of fifteen hidden layers, and the next tick, on an
  empty history, leaves them visible.
\<close>

theorem empty_history_hides_counterexample:
  "animate [example_frame 0] 0 (replicate 15 hidden_mesh) =
     Inr (replicate 6 drawn_mesh @ replicate 9 hidden_mesh) \<and>
   animate [] 16 (replicate 6 drawn_mesh @ replicate 9 hidden_mesh) =
     Inr (replicate 6 drawn_mesh @ replicate 9 hidden_mesh) \<and>
   visible ((replicate 6 drawn_mesh @ replicate 9 hidden_mesh) ! 0)"
  by (simp add: tick1 animate_empty nth_append drawn_mesh_def)

text \<open>
  C8. A tick returns a list of layers for every history, every time and every list of
  layers: no read of an undefined frame, landmark array or landmark occurs. Every layer
  keeps the length of its buffer. And when connection number \<open>n\<close> of the topology is
  reached in a buffer of the allocated length \<open>2 * 35 * 3\<close>, the write index is at most
  6 below that length, so the six stores of the connection fall inside the buffer.
\<close>

theorem render_tick_total:
  assumes "n < length ALL_CONNECTIONS" and "length buf = length ALL_CONNECTIONS * 2 * 3"
  shows "(\<exists>ms. animate history now meshes = Inr ms \<and> length ms = length meshes \<and>
            (\<forall>i<length meshes. length (positions (ms ! i)) = length (positions (meshes ! i)))) \<and>
         (\<exists>pIdx ps. write_connections (Some ls) (take n ALL_CONNECTIONS) (0, buf) = Inr (pIdx, ps) \<and>
            pIdx + 6 \<le> length buf \<and> length ps = length buf)"
proof
  show "\<exists>ms. animate history now meshes = Inr ms \<and> length ms = length meshes \<and>
            (\<forall>i<length meshes. length (positions (ms ! i)) = length (positions (meshes ! i)))"
  proof (cases "history = []")
    case True
    then show ?thesis by (simp add: animate_empty)
  next
    case False
    obtain ms where ms: "animate history now meshes = Inr ms" "length ms = length meshes"
      "\<forall>i<length meshes. update_mesh history now (meshes ! i) i = Inr (ms ! i)"
      using animate_nonempty[OF False] by blast
    have "\<forall>i<length meshes. length (positions (ms ! i)) = length (positions (meshes ! i))"
    proof (intro allI impI)
      fix i assume "i < length meshes"
      then have "update_mesh history now (meshes ! i) i = Inr (ms ! i)" using ms(3) by simp
      then show "length (positions (ms ! i)) = length (positions (meshes ! i))"
        using draw_nearest_total[OF False, of "now - real i / (real TRAIL_COUNT - 1) * MAX_DELAY_MS" "meshes ! i"]
        by (auto simp: update_mesh_def Let_def)
    qed
    then show ?thesis using ms(1,2) by blast
  qed
next
  obtain p' ps' where r: "write_connections (Some ls) (take n ALL_CONNECTIONS) (0, buf) = Inr (p', ps')"
    "length ps' = length buf" "p' \<le> 0 + 6 * length (take n ALL_CONNECTIONS)"
    using write_connections_total[of ls "take n ALL_CONNECTIONS" 0 buf] by blast
  have "length (take n ALL_CONNECTIONS) = n" using assms(1) by simp
  then have "p' + 6 \<le> length buf" using r(3) assms by simp
  then show "\<exists>pIdx ps. write_connections (Some ls) (take n ALL_CONNECTIONS) (0, buf) = Inr (pIdx, ps) \<and>
            pIdx + 6 \<le> length buf \<and> length ps = length buf"
    using r(1,2) by simp
qed

theorem render_tick_total_witness:
  "(34::nat) < length ALL_CONNECTIONS \<and> length new_positions = length ALL_CONNECTIONS * 2 * 3 \<and>
   (\<exists>ms. animate [frame_without_11] 16 [stale_mesh] = Inr ms \<and> length ms = length [stale_mesh]) \<and>
   (\<exists>pIdx ps. write_connections (Some landmarks_without_11) (take 34 ALL_CONNECTIONS) (0, new_positions) =
        Inr (pIdx, ps) \<and> pIdx + 6 \<le> length new_positions \<and> length ps = length new_positions)"
proof -
  have n: "(34::nat) < length ALL_CONNECTIONS" by (simp add: length_ALL_CONNECTIONS)
  have len: "length new_positions = length ALL_CONNECTIONS * 2 * 3"
    by (simp add: new_positions_def)
  show ?thesis
    using n len render_tick_total [OF n len, of "[frame_without_11]" 16 "[stale_mesh]" landmarks_without_11]
    by blast
qed

section \<open>The segments in the buffer\<close>

text \<open>
  C6, as the code has it. A tick that draws a frame into a buffer of the allocated
  length writes the connections whose two endpoints are present, six floats each, in
  the order of the topology and without gaps from index 0; a connection with a missing
  endpoint contributes no float and takes no room, so the floats behind the written ones
  (six for each omitted connection, at the end of the buffer) are the ones that keep
  their earlier contents. When every endpoint is present, \<open>2 * 35 * 3\<close> floats are written
  and connection \<open>j\<close> fills the floats \<open>6 * j\<close> to \<open>6 * j + 5\<close>. When landmark \<open>k\<close>
  is missing, every connection that names \<open>k\<close> is omitted.
\<close>

theorem segments_written_compactly:
  assumes "findNearest history T = Inr (Some fr, d)"
    and "landmarks fr = Some ls" and "d < 1000"
    and "length (positions m) = length ALL_CONNECTIONS * 2 * 3"
  shows "draw_nearest history T m =
           Inr (m\<lparr>positions := written_floats ls @ drop (length (written_floats ls)) (positions m),
                  needsUpdate := True, visible := True\<rparr>) \<and>
         length (written_floats ls) =
           6 * length (filter (\<lambda>c. landmark_of ls (fst c) \<noteq> None \<and> landmark_of ls (snd c) \<noteq> None)
                         ALL_CONNECTIONS) \<and>
         ((\<forall>c\<in>set ALL_CONNECTIONS. landmark_of ls (fst c) \<noteq> None \<and> landmark_of ls (snd c) \<noteq> None) \<longrightarrow>
            length (written_floats ls) = 2 * length ALL_CONNECTIONS * 3 \<and>
            (\<forall>j<length ALL_CONNECTIONS.
               length (segment_floats ls (ALL_CONNECTIONS ! j)) = 6 \<and>
               take 6 (drop (6 * j) (written_floats ls)) = segment_floats ls (ALL_CONNECTIONS ! j))) \<and>
         (landmark_of ls k = None \<longrightarrow>
            (\<forall>c\<in>set ALL_CONNECTIONS. fst c = k \<or> snd c = k \<longrightarrow> segment_floats ls c = []))"
proof (intro conjI impI)
  show "draw_nearest history T m =
           Inr (m\<lparr>positions := written_floats ls @ drop (length (written_floats ls)) (positions m),
                  needsUpdate := True, visible := True\<rparr>)"
    using assms by (rule draw_nearest_writes)
next
  show "length (written_floats ls) =
           6 * length (filter (\<lambda>c. landmark_of ls (fst c) \<noteq> None \<and> landmark_of ls (snd c) \<noteq> None)
                         ALL_CONNECTIONS)"
    unfolding written_floats_def by (rule length_written_floats)
next
  assume full: "\<forall>c\<in>set ALL_CONNECTIONS. landmark_of ls (fst c) \<noteq> None \<and> landmark_of ls (snd c) \<noteq> None"
  then have six: "\<forall>c\<in>set ALL_CONNECTIONS. length (segment_floats ls c) = 6"
    by (simp add: length_segment_floats)
  show "length (written_floats ls) = 2 * length ALL_CONNECTIONS * 3"
    unfolding written_floats_def using length_concat_six[OF six] by simp
  show "\<forall>j<length ALL_CONNECTIONS.
               length (segment_floats ls (ALL_CONNECTIONS ! j)) = 6 \<and>
               take 6 (drop (6 * j) (written_floats ls)) = segment_floats ls (ALL_CONNECTIONS ! j)"
    unfolding written_floats_def using six slot_of_concat_six[OF six] by simp
next
  assume "landmark_of ls k = None"
  then show "\<forall>c\<in>set ALL_CONNECTIONS. fst c = k \<or> snd c = k \<longrightarrow> segment_floats ls c = []"
    by (auto simp: segment_floats_def split: option.splits)
qed

theorem segments_written_compactly_witness:
  "findNearest [example_frame 0] 0 = Inr (Some (example_frame 0), 0) \<and>
   landmarks (example_frame 0) = Some full_landmarks \<and> (0::real) < 1000 \<and>
   length (positions hidden_mesh) = length ALL_CONNECTIONS * 2 * 3 \<and>
   list_all (\<lambda>c. landmark_of full_landmarks (fst c) \<noteq> None \<and> landmark_of full_landmarks (snd c) \<noteq> None)
     ALL_CONNECTIONS \<and>
   length (written_floats full_landmarks) = 2 * length ALL_CONNECTIONS * 3 \<and>
   draw_nearest [example_frame 0] 0 hidden_mesh =
     Inr (hidden_mesh\<lparr>positions := written_floats full_landmarks @
                          drop (length (written_floats full_landmarks)) (positions hidden_mesh),
                       needsUpdate := True, visible := True\<rparr>) \<and>
   findNearest [frame_without_11] 16 = Inr (Some frame_without_11, 0) \<and>
   landmarks frame_without_11 = Some landmarks_without_11 \<and>
   length (positions stale_mesh) = length ALL_CONNECTIONS * 2 * 3 \<and>
   landmark_of landmarks_without_11 11 = None \<and>
   (11, 12) \<in> set ALL_CONNECTIONS \<and>
   segment_floats landmarks_without_11 (11, 12) = []"
proof -
  have fn1: "findNearest [example_frame 0] 0 = Inr (Some (example_frame 0), 0)"
    using findNearest_single[of "example_frame 0" 0] by (simp add: example_frame_def)
  have lm1: "landmarks (example_frame 0) = Some full_landmarks" by (simp add: example_frame_def)
  have d: "(0::real) < 1000" by simp
  have len1: "length (positions hidden_mesh) = length ALL_CONNECTIONS * 2 * 3"
    by (simp add: hidden_mesh_def new_positions_def)
  have fn2: "findNearest [frame_without_11] 16 = Inr (Some frame_without_11, 0)"
    using findNearest_single[of frame_without_11 16] by (simp add: frame_without_11_def)
  have lm2: "landmarks frame_without_11 = Some landmarks_without_11"
    by (simp add: frame_without_11_def)
  have len2: "length (positions stale_mesh) = length ALL_CONNECTIONS * 2 * 3"
    by (simp add: stale_mesh_def length_written_spread length_ALL_CONNECTIONS)
  have none: "landmark_of landmarks_without_11 11 = None"
    by (rule landmark_11_missing)
  have mem: "(11, 12) \<in> set ALL_CONNECTIONS"
    by (simp add: ALL_CONNECTIONS_def POSE_CONNECTIONS_def)
  have all: "list_all (\<lambda>c. landmark_of full_landmarks (fst c) \<noteq> None \<and> landmark_of full_landmarks (snd c) \<noteq> None)
     ALL_CONNECTIONS"
    using full_landmarks_present by (simp add: list_all_iff)
  note t1 = segments_written_compactly [OF fn1 lm1 d len1, of 11]
  note t2 = segments_written_compactly [OF fn2 lm2 d len2, of 11]
  have full: "length (written_floats full_landmarks) = 2 * length ALL_CONNECTIONS * 3"
    using t1 full_landmarks_present by blast
  have drawn: "draw_nearest [example_frame 0] 0 hidden_mesh =
     Inr (hidden_mesh\<lparr>positions := written_floats full_landmarks @
                          drop (length (written_floats full_landmarks)) (positions hidden_mesh),
                       needsUpdate := True, visible := True\<rparr>)"
    using t1 by blast
  have "\<forall>c\<in>set ALL_CONNECTIONS. fst c = 11 \<or> snd c = 11 \<longrightarrow>
      segment_floats landmarks_without_11 c = []"
    using t2 none by blast
  then have omitted: "segment_floats landmarks_without_11 (11, 12) = []"
    using mem by (simp add: Ball_def)
  show ?thesis
    using fn1 lm1 d len1 fn2 lm2 len2 none mem all full drawn omitted by blast
qed

text \<open>
  The claim that an omitted connection leaves its own floats of the buffer unwritten, so
  that the buffer keeps that segment's earlier positions, fails. A first tick draws the
  full frame: the first connection \<open>(11, 12)\<close> of the topology fills the floats 0 to 5
  with the positions of the landmarks 11 and 12. The next frame lacks landmark 11. After
  its tick the floats 0 to 5 hold the connection \<open>(13, 15)\<close> of the new frame, the world
  x of the old landmark 11 is nowhere in the buffer, and the floats that are kept from
  the tick before are the last 18, the earlier positions of the last three connections
  \<open>(4, 5)\<close>, \<open>(5, 6)\<close> and \<open>(6, 8)\<close>.
\<close>

theorem omitted_segment_slot_counterexample:
  "draw_nearest [spread_frame] 0 hidden_mesh = Inr stale_mesh \<and>
   ALL_CONNECTIONS ! 0 = (11, 12) \<and>
   take 6 (positions stale_mesh) = [fround (11 / 10), 0, 0, fround (12 / 10), 0, 0] \<and>
   landmark_of landmarks_without_11 11 = None \<and>
   draw_nearest [frame_without_11] 16 stale_mesh = Inr after_mesh \<and>
   take 6 (positions after_mesh) = [fround (13 / 10), 0, 0, fround (15 / 10), 0, 0] \<and>
   fround (11 / 10) \<notin> set (positions after_mesh) \<and>
   drop 192 (positions after_mesh) = drop 192 (positions stale_mesh) \<and>
   drop 192 (positions after_mesh) =
     [fround (4 / 10), 0, 0, fround (5 / 10), 0, 0, fround (5 / 10), 0, 0, fround (6 / 10), 0, 0,
      fround (6 / 10), 0, 0, fround (8 / 10), 0, 0] \<and>
   fround (11 / 10) = 9227469 / 8388608 \<and> fround (12 / 10) = 5033165 / 4194304 \<and>
   fround (13 / 10) = 5452595 / 4194304 \<and> fround (15 / 10) = 15 / 10"
proof -
  have t: "take 6 (positions after_mesh) = [fround (13 / 10), 0, 0, fround (15 / 10), 0, 0]"
    using take_written_without_11 by (simp add: after_mesh_def length_written_without_11)
  have d: "drop 192 (positions after_mesh) = drop 192 (positions stale_mesh)"
    by (simp add: after_mesh_def stale_mesh_def length_written_without_11)
  have n: "fround (11 / 10) \<notin> set (positions after_mesh)"
    using no_11_written_without_11 no_11_kept
    by (simp only: after_mesh_def mesh.simps set_append drop_written_spread Un_iff) blast
  have c: "ALL_CONNECTIONS ! 0 = (11, 12)"
    by (simp add: ALL_CONNECTIONS_def POSE_CONNECTIONS_def)
  have s: "take 6 (positions stale_mesh) = [fround (11 / 10), 0, 0, fround (12 / 10), 0, 0]"
    using take_written_spread by (simp add: stale_mesh_def)
  have d': "drop 192 (positions stale_mesh) =
     [fround (4 / 10), 0, 0, fround (5 / 10), 0, 0, fround (5 / 10), 0, 0, fround (6 / 10), 0, 0,
      fround (6 / 10), 0, 0, fround (8 / 10), 0, 0]"
    using drop_written_spread by (simp add: stale_mesh_def)
  have d'': "drop 192 (positions after_mesh) =
     [fround (4 / 10), 0, 0, fround (5 / 10), 0, 0, fround (5 / 10), 0, 0, fround (6 / 10), 0, 0,
      fround (6 / 10), 0, 0, fround (8 / 10), 0, 0]"
    using d d' by (rule trans)
  show ?thesis
    using draw_spread_frame draw_frame_without_11 landmark_11_missing t d n c s d'' fround_values
    by (intro conjI)
qed

section \<open>The coordinate transform\<close>






section \<open>The opacity of the layers\<close>

text \<open>
  C10. The material of layer \<open>i\<close>, for \<open>i\<close> below 15, has the opacity
  \<open>(1 - i / 15)\<close> to the power 1.5; it lies in the interval \<open>(0, 1]\<close>, and every later
  layer has a strictly smaller opacity.
\<close>

theorem layer_opacity_fades:
  assumes i: "i < 15"
  shows "opacity (layer_material i) = (1 - real i / 15) powr 1.5 \<and>
     0 < opacity (layer_material i) \<and> opacity (layer_material i) \<le> 1 \<and>
     (\<forall>j. i < j \<and> j < 15 \<longrightarrow> opacity (layer_material j) < opacity (layer_material i))"
proof -
  have pos: "0 < 1 - real i / 15" using i by simp
  have le1: "1 - real i / 15 \<le> 1" by simp
  have "(1 - real i / 15) powr 1.5 \<le> 1 powr 1.5"
    using pos le1 by (intro powr_mono2) simp_all
  moreover have "\<forall>j. i < j \<and> j < 15 \<longrightarrow> (1 - real j / 15) powr 1.5 < (1 - real i / 15) powr 1.5"
  proof (intro allI impI)
    fix j assume j: "i < j \<and> j < 15"
    then have "1 - real j / 15 < 1 - real i / 15" by simp
    moreover have "0 \<le> 1 - real j / 15" using j by simp
    ultimately show "(1 - real j / 15) powr 1.5 < (1 - real i / 15) powr 1.5"
      by (intro powr_less_mono2) simp_all
  qed
  ultimately show ?thesis using pos
    by (simp add: layer_material_def layer_opacity_def TRAIL_COUNT_def)
qed

theorem layer_opacity_fades_witness:
  "(14::nat) < 15 \<and> 0 < opacity (layer_material 14) \<and> opacity (layer_material 14) \<le> 1 \<and>
   opacity (layer_material 14) < opacity (layer_material 0)"
proof -
  have a: "(14::nat) < 15" and b: "(0::nat) < 15" by simp_all
  note t0 = layer_opacity_fades [OF b]
  note t14 = layer_opacity_fades [OF a]
  have "\<forall>j. 0 < j \<and> j < 15 \<longrightarrow> opacity (layer_material j) < opacity (layer_material 0)"
    using t0 by (elim conjE)
  then have lt: "opacity (layer_material 14) < opacity (layer_material 0)"
    by (elim allE[of _ 14]) simp
  have pos: "0 < opacity (layer_material 14)"
    using t14 by (elim conjE)
  have le: "opacity (layer_material 14) \<le> 1"
    using t14 by (elim conjE)
  show ?thesis using a pos le lt by (intro conjI)
qed

end
